theory Spec2Isabelle
  imports Main "HOL-Library.Word"
begin

section \<open>The process entry trampoline of libtock (userland/libtock/crt1.c)\<close>

text \<open>
  The source is one naked, noreturn C function whose body is an inline assembly block of
  four ARM instructions, followed by two C-level calls, and a second ordinary C function
  that makes the same two calls:
  \<^verbatim>\<open>
  void _start(void* mem_start, void* app_heap_break, void* kernel_memory_break) {
    asm volatile ("mov r9, sp; bl main; 1: bl yield; b 1b");
    main();
    yield();
  }
  void lto_asm_references_dummy_function(void) { main(); yield(); }
  \<close>
  It is modelled as a small machine: the code of each routine is a list of instructions,
  a state holds the point of control, the registers, the memory and the list of actions
  performed so far, and one step executes one instruction. The two routines the file
  calls but does not define, \<open>main\<close> and \<open>yield\<close>, and the addresses the linker gives
  the code, are parameters of the machine.
\<close>

subsection \<open>Machine data\<close>

type_synonym word32 = "32 word"

text \<open>
  The registers: r0 to r12, the stack pointer and the link register (r14). The program
  counter is the control component of the state below.
\<close>

datatype reg = R0 | R1 | R2 | R3 | R4 | R5 | R6 | R7 | R8 | R9 | R10 | R11 | R12 | SP | LR

text \<open>The external symbols the file calls: \<open>extern int main(void)\<close> and \<open>yield\<close> of tock.h.\<close>

datatype extern = main | yield

text \<open>The two routines the file defines.\<close>

datatype routine = Start | Lto_dummy

text \<open>
  \<open>MOV rd rm\<close> copies register \<open>rm\<close> into \<open>rd\<close>; \<open>BL f\<close> is branch-with-link, a call that
  puts the address of the following instruction into the link register and branches to
  \<open>f\<close>; \<open>B l\<close> branches to the instruction at index \<open>l\<close> of the same routine; \<open>RET\<close>
  returns to the routine's caller.
\<close>

datatype instr = MOV reg reg | BL extern | B nat | RET

text \<open>What a run of the machine does, in order.\<close>

datatype event =
    Write reg word32   \<comment> \<open>a \<open>mov\<close> of this file wrote this value to its destination register\<close>
  | Call extern        \<comment> \<open>a \<open>bl\<close> of this file set the link register and called the routine\<close>
  | Resume extern      \<comment> \<open>an external routine returned to the instruction after its call\<close>

datatype control =
    At routine nat          \<comment> \<open>about to execute the instruction at this index of the routine\<close>
  | In extern routine nat   \<comment> \<open>inside an external routine, called with this return point\<close>
  | Returned                \<comment> \<open>control went back to the caller of the routine\<close>
  | Escaped                 \<comment> \<open>control ran past the last instruction of the routine\<close>

record machine =
  regs :: "reg \<Rightarrow> word32"
  mem :: "word32 \<Rightarrow> 8 word"

record state =
  ctl :: control
  mach :: machine
  trace :: "event list"

text \<open>
  The behaviour of the external routines: called on a machine, a routine either returns,
  leaving the machine in a new state (\<open>Some\<close>), or never returns (\<open>None\<close>).
\<close>

type_synonym env = "extern \<Rightarrow> machine \<Rightarrow> machine option"

text \<open>
  Where the linker puts the code: \<open>lay f i\<close> is the return address of the instruction at
  index \<open>i\<close> of routine \<open>f\<close>, the value a \<open>bl\<close> just before it puts into the link
  register. The file does not fix it, so it is a parameter of the machine too.
\<close>

type_synonym layout = "routine \<Rightarrow> nat \<Rightarrow> word32"

subsection \<open>The code\<close>

text \<open>
  The assembly block of \<open>_start\<close>. The local label \<open>1:\<close> stands before \<open>bl yield\<close>, the
  instruction at index 2, so \<open>b 1b\<close> is \<open>B 2\<close>.
\<close>

definition start_asm :: "instr list" where
  "start_asm = [MOV R9 SP, BL main, BL yield, B 2]"

text \<open>
  The C statements \<open>main(); yield();\<close> that follow the assembly block. The function is
  naked, so no epilogue follows them.
\<close>

definition start_tail :: "instr list" where
  "start_tail = [BL main, BL yield]"

definition start_code :: "instr list" where
  "start_code = start_asm @ start_tail"

text \<open>The body of \<open>lto_asm_references_dummy_function\<close>, an ordinary function that returns.\<close>

definition lto_asm_references_dummy_function :: "instr list" where
  "lto_asm_references_dummy_function = [BL main, BL yield, RET]"

fun code_of :: "routine \<Rightarrow> instr list" where
  "code_of Start = start_code"
| "code_of Lto_dummy = lto_asm_references_dummy_function"

definition fetch :: "routine \<Rightarrow> nat \<Rightarrow> instr option" where
  "fetch f pc = (if pc < length (code_of f) then Some (code_of f ! pc) else None)"

subsection \<open>Execution\<close>

fun exec :: "layout \<Rightarrow> instr \<Rightarrow> routine \<Rightarrow> nat \<Rightarrow> state \<Rightarrow> state" where
  "exec lay (MOV rd rm) f pc s =
     s\<lparr>ctl := At f (pc + 1),
       mach := (mach s)\<lparr>regs := (regs (mach s))(rd := regs (mach s) rm)\<rparr>,
       trace := trace s @ [Write rd (regs (mach s) rm)]\<rparr>"
| "exec lay (BL g) f pc s =
     s\<lparr>ctl := In g f (pc + 1),
       mach := (mach s)\<lparr>regs := (regs (mach s))(LR := lay f (pc + 1))\<rparr>,
       trace := trace s @ [Call g]\<rparr>"
| "exec lay (B l) f pc s = s\<lparr>ctl := At f l\<rparr>"
| "exec lay RET f pc s = s\<lparr>ctl := Returned\<rparr>"

text \<open>
  One step. At an instruction of the file, execute it. Inside an external routine, ask
  the environment: if the routine returns, control resumes at the recorded return point
  with the machine the routine left; if it never returns, control stays inside it.
\<close>

definition step :: "layout \<Rightarrow> env \<Rightarrow> state \<Rightarrow> state" where
  "step lay env s =
     (case ctl s of
        At f pc \<Rightarrow>
          (case fetch f pc of
             Some i \<Rightarrow> exec lay i f pc s
           | None \<Rightarrow> s\<lparr>ctl := Escaped\<rparr>)
      | In g f ret \<Rightarrow>
          (case env g (mach s) of
             Some m' \<Rightarrow> s\<lparr>ctl := At f ret, mach := m', trace := trace s @ [Resume g]\<rparr>
           | None \<Rightarrow> s)
      | Returned \<Rightarrow> s
      | Escaped \<Rightarrow> s)"

fun run :: "layout \<Rightarrow> env \<Rightarrow> nat \<Rightarrow> state \<Rightarrow> state" where
  "run lay env 0 s = s"
| "run lay env (Suc n) s = run lay env n (step lay env s)"

text \<open>
  The state in which the kernel enters \<open>_start\<close>: control at its first instruction, the
  three handoff parameters in the argument registers r0, r1 and r2, every other register
  and the memory as the kernel left them, nothing done yet.
\<close>

definition entry :: "(reg \<Rightarrow> word32) \<Rightarrow> (word32 \<Rightarrow> 8 word) \<Rightarrow> word32 \<Rightarrow> word32 \<Rightarrow> word32 \<Rightarrow> state" where
  "entry rs m mem_start app_heap_break kernel_memory_break =
     \<lparr>ctl = At Start 0,
      mach = \<lparr>regs = rs(R0 := mem_start, R1 := app_heap_break, R2 := kernel_memory_break),
              mem = m\<rparr>,
      trace = []\<rparr>"

text \<open>The yield loop: the two instructions after the call of \<open>main\<close>, and \<open>yield\<close> called from there.\<close>

definition idle :: "state \<Rightarrow> bool" where
  "idle s \<longleftrightarrow> ctl s = At Start 2 \<or> ctl s = In yield Start 3 \<or> ctl s = At Start 3"

text \<open>The actions of \<open>k\<close> completed rounds of the yield loop.\<close>

fun yields :: "nat \<Rightarrow> event list" where
  "yields 0 = []"
| "yields (Suc k) = Call yield # Resume yield # yields k"

fun is_write :: "event \<Rightarrow> bool" where
  "is_write (Write r v) = True"
| "is_write (Call g) = False"
| "is_write (Resume g) = False"

text \<open>Two machines that differ at most in the argument registers r0, r1 and r2.\<close>

definition args_only :: "machine \<Rightarrow> machine \<Rightarrow> bool" where
  "args_only m m' \<longleftrightarrow>
     mem m = mem m' \<and>
     (\<forall>r \<in> set [R3, R4, R5, R6, R7, R8, R9, R10, R11, R12, SP, LR]. regs m r = regs m' r)"

text \<open>
  An environment whose routines take no arguments, as \<open>int main(void)\<close> and \<open>yield()\<close>
  are declared: whether a routine returns, and what it leaves outside r0, r1 and r2, do
  not depend on what r0, r1 and r2 held when it was called.
\<close>

definition ignores_args :: "env \<Rightarrow> bool" where
  "ignores_args env \<longleftrightarrow>
     (\<forall>g m m'. args_only m m' \<longrightarrow>
        (case env g m of
           None \<Rightarrow> env g m' = None
         | Some a \<Rightarrow> (case env g m' of None \<Rightarrow> False | Some b \<Rightarrow> args_only a b)))"

subsection \<open>The shape of every reachable state\<close>

text \<open>What has been done when \<open>main\<close> has just returned, \<open>v\<close> being the value written to r9.\<close>

definition prologue :: "word32 \<Rightarrow> event list" where
  "prologue v = [Write R9 v, Call main, Resume main]"

text \<open>
  The invariant of a run from entry: where control is fixes what has been done so far,
  and on the way into \<open>main\<close> r9 holds \<open>v\<close>, the stack pointer at entry.
\<close>

definition tramp_inv :: "word32 \<Rightarrow> state \<Rightarrow> bool" where
  "tramp_inv v s \<longleftrightarrow>
     (ctl s = At Start 0 \<and> trace s = [] \<and> regs (mach s) SP = v) \<or>
     (ctl s = At Start 1 \<and> trace s = [Write R9 v] \<and> regs (mach s) R9 = v) \<or>
     (ctl s = In main Start 2 \<and> trace s = [Write R9 v, Call main] \<and> regs (mach s) R9 = v) \<or>
     (\<exists>k. ctl s = At Start 2 \<and> trace s = prologue v @ yields k) \<or>
     (\<exists>k. ctl s = In yield Start 3 \<and> trace s = prologue v @ yields k @ [Call yield]) \<or>
     (\<exists>k. ctl s = At Start 3 \<and> trace s = prologue v @ yields (Suc k))"

subsection \<open>Concrete inputs\<close>

text \<open>
  A register file with the stack pointer at 0x2800 and zero elsewhere, an all-zero
  memory, a layout with \<open>_start\<close> at 0x30000 and four bytes to an instruction, an
  environment in which \<open>main\<close> returns 7 in r0 and \<open>yield\<close> resumes, one in which both return and
  leave the machine as it was, and one in which \<open>main\<close> never returns.
\<close>

definition regs0 :: "reg \<Rightarrow> word32" where
  "regs0 r = (if r = SP then 0x2800 else 0)"

definition mem0 :: "word32 \<Rightarrow> 8 word" where
  "mem0 a = 0"

definition lay0 :: layout where
  "lay0 f i = (case f of Start \<Rightarrow> 0x30000 | Lto_dummy \<Rightarrow> 0x30100) + 4 * of_nat i"

definition returning :: env where
  "returning g x = Some (x\<lparr>regs := (regs x)(R0 := 7)\<rparr>)"

definition passing :: env where
  "passing g x = Some x"

definition diverging :: env where
  "diverging g x = (case g of main \<Rightarrow> None | yield \<Rightarrow> Some x)"

section \<open>Basic facts\<close>

lemma fetch_Start:
  "fetch Start pc =
     (if pc = 0 then Some (MOV R9 SP)
      else if pc = 1 then Some (BL main)
      else if pc = 2 then Some (BL yield)
      else if pc = 3 then Some (B 2)
      else if pc = 4 then Some (BL main)
      else if pc = 5 then Some (BL yield)
      else None)"
  by (simp add: fetch_def start_code_def start_asm_def start_tail_def nth_Cons')

lemma fetch_Lto_dummy:
  "fetch Lto_dummy pc =
     (if pc = 0 then Some (BL main)
      else if pc = 1 then Some (BL yield)
      else if pc = 2 then Some RET
      else None)"
  by (simp add: fetch_def lto_asm_references_dummy_function_def nth_Cons')

lemma run_Suc: "run lay env (Suc n) s = step lay env (run lay env n s)"
  by (induction n arbitrary: s) simp_all

lemma run_add: "run lay env (a + b) s = run lay env b (run lay env a s)"
  by (induction a arbitrary: s) simp_all

lemma yields_snoc: "yields k @ [Call yield, Resume yield] = yields (Suc k)"
  by (induction k) simp_all

lemma step_At:
  "ctl s = At f pc \<Longrightarrow>
   step lay env s = (case fetch f pc of Some i \<Rightarrow> exec lay i f pc s | None \<Rightarrow> s\<lparr>ctl := Escaped\<rparr>)"
  by (simp add: step_def)

lemma step_In:
  "ctl s = In g f ret \<Longrightarrow>
   step lay env s =
     (case env g (mach s) of
        Some m' \<Rightarrow> s\<lparr>ctl := At f ret, mach := m', trace := trace s @ [Resume g]\<rparr>
      | None \<Rightarrow> s)"
  by (simp add: step_def)

lemma tramp_inv_entry: "tramp_inv (rs SP) (entry rs m a b c)"
  by (simp add: tramp_inv_def entry_def)

lemma tramp_inv_step:
  assumes "tramp_inv v s"
  shows "tramp_inv v (step lay env s)"
  using assms unfolding tramp_inv_def
  apply (elim disjE exE conjE)
  subgoal by (simp add: step_At fetch_Start)
  subgoal by (simp add: step_At fetch_Start)
  subgoal by (auto simp: step_In prologue_def split: option.splits intro: exI[of _ 0])
  subgoal for k by (auto simp: step_At fetch_Start)
  subgoal for k by (auto simp: step_In yields_snoc simp del: yields.simps split: option.splits)
  subgoal for k by (auto simp: step_At fetch_Start simp del: yields.simps)
  done

lemma tramp_inv_run: "tramp_inv v s \<Longrightarrow> tramp_inv v (run lay env n s)"
  by (induction n arbitrary: s) (simp_all add: tramp_inv_step)


lemma reach_inv: "tramp_inv (rs SP) (run lay env n (entry rs m a b c))"
  by (rule tramp_inv_run) (rule tramp_inv_entry)

lemma yields_no_write: "filter is_write (yields k) = []"
  by (induction k) simp_all

lemma yields_mem: "x \<in> set (yields k) \<Longrightarrow> x = Call yield \<or> x = Resume yield"
  by (induction k) auto

lemma yields_no_main: "filter ((=) (Call main)) (yields k) = []"
  by (induction k) simp_all

lemma tramp_inv_ctl:
  "tramp_inv v s \<Longrightarrow>
   ctl s \<in> {At Start 0, At Start 1, In main Start 2, At Start 2, In yield Start 3, At Start 3}"
  by (auto simp: tramp_inv_def)

lemma tramp_inv_writes:
  "tramp_inv v s \<Longrightarrow>
   filter is_write (trace s) = (if ctl s = At Start 0 then [] else [Write R9 v])"
  by (auto simp: tramp_inv_def prologue_def yields_no_write simp del: yields.simps)



lemma tramp_inv_past_entry:
  "tramp_inv v s \<Longrightarrow> ctl (step lay env s) \<noteq> At Start 0"
  by (auto simp: tramp_inv_def step_At step_In fetch_Start split: option.splits)

lemma tramp_inv_calls_main:
  "tramp_inv v s \<Longrightarrow>
   filter ((=) (Call main)) (trace s) =
     (if ctl s = At Start 0 \<or> ctl s = At Start 1 then [] else [Call main])"
  by (auto simp: tramp_inv_def prologue_def yields_no_main simp del: yields.simps)

lemma tramp_inv_yield_idle:
  "tramp_inv v s \<Longrightarrow> Call yield \<in> set (trace s) \<Longrightarrow> idle s"
  by (auto simp: tramp_inv_def idle_def)

lemma tramp_inv_after_return:
  "tramp_inv v s \<Longrightarrow> set (drop 3 (trace s)) \<subseteq> {Call yield, Resume yield}"
  by (auto simp: tramp_inv_def prologue_def simp del: yields.simps dest: yields_mem)

lemma stuck_in_extern:
  "ctl s = In g f ret \<Longrightarrow> env g (mach s) = None \<Longrightarrow> run lay env n s = s"
  by (induction n) (simp_all add: step_In)

lemma idle_step: "idle s \<Longrightarrow> idle (step lay env s)"
  by (auto simp: idle_def step_At step_In fetch_Start split: option.splits)

lemma idle_run: "idle s \<Longrightarrow> idle (run lay env n s)"
  by (induction n arbitrary: s) (simp_all add: idle_step)

lemma run_entry_1:
  "run lay env (Suc 0) (entry rs m a b c) =
     \<lparr>ctl = At Start 1,
      mach = \<lparr>regs = (rs(R0 := a, R1 := b, R2 := c))(R9 := rs SP), mem = m\<rparr>,
      trace = [Write R9 (rs SP)]\<rparr>"
  by (simp add: entry_def step_At fetch_Start)

lemma run_entry_2:
  "run lay env (Suc (Suc 0)) (entry rs m a b c) =
     \<lparr>ctl = In main Start 2,
      mach = \<lparr>regs = (rs(R0 := a, R1 := b, R2 := c))(R9 := rs SP, LR := lay Start 2),
              mem = m\<rparr>,
      trace = [Write R9 (rs SP), Call main]\<rparr>"
  by (simp add: entry_def step_At fetch_Start numeral_2_eq_2)


lemmas eval_defs =
  entry_def step_def fetch_def start_code_def start_asm_def start_tail_def
  regs0_def mem0_def lay0_def returning_def passing_def diverging_def idle_def

section \<open>Properties of the trampoline\<close>

text \<open>
  C5. The value the trampoline writes into the global-data-pointer register r9 is the
  stack pointer it was entered with: after the first instruction the only action is the
  write of the entry value of sp to r9, r9 holds that value, and in a run of any length
  from entry this is the one register move the trampoline has made.
\<close>

theorem start_r9_is_initial_sp:
  "trace (run lay env 1 (entry rs m a b c)) = [Write R9 (rs SP)] \<and>
   regs (mach (run lay env 1 (entry rs m a b c))) R9 = rs SP \<and>
   filter is_write (trace (run lay env (Suc n) (entry rs m a b c))) = [Write R9 (rs SP)]"
proof -
  let ?s = "run lay env n (entry rs m a b c)"
  have inv: "tramp_inv (rs SP) ?s"
    by (rule reach_inv)
  have "ctl (step lay env ?s) \<noteq> At Start 0"
    using inv by (rule tramp_inv_past_entry)
  moreover have "tramp_inv (rs SP) (step lay env ?s)"
    using inv by (rule tramp_inv_step)
  ultimately have "filter is_write (trace (step lay env ?s)) = [Write R9 (rs SP)]"
    by (simp add: tramp_inv_writes)
  then have later: "filter is_write (trace (run lay env (Suc n) (entry rs m a b c))) = [Write R9 (rs SP)]"
    by (simp only: run_Suc)
  have first: "run lay env 1 (entry rs m a b c) =
     \<lparr>ctl = At Start 1,
      mach = \<lparr>regs = (rs(R0 := a, R1 := b, R2 := c))(R9 := rs SP), mem = m\<rparr>,
      trace = [Write R9 (rs SP)]\<rparr>"
    by (simp only: One_nat_def run_entry_1)
  show ?thesis
    using later by (simp only: first) simp
qed



lemma run_entry_3:
  assumes "env main (mach (run lay env 2 (entry rs m a b c))) = Some m2"
  shows "run lay env 3 (entry rs m a b c) =
     \<lparr>ctl = At Start 2, mach = m2, trace = [Write R9 (rs SP), Call main, Resume main]\<rparr>"
  using assms by (simp add: eval_nat_numeral entry_def step_At step_In fetch_Start)

lemma run_entry_4:
  assumes "env main (mach (run lay env 2 (entry rs m a b c))) = Some m2"
  shows "run lay env 4 (entry rs m a b c) =
     \<lparr>ctl = In yield Start 3,
      mach = m2\<lparr>regs := (regs m2)(LR := lay Start 3)\<rparr>,
      trace = [Write R9 (rs SP), Call main, Resume main, Call yield]\<rparr>"
  using assms by (simp add: eval_nat_numeral entry_def step_At step_In fetch_Start)

lemma main_diverges_run:
  assumes "env main (mach (run lay env 2 (entry rs m a b c))) = None" and "2 \<le> k"
  shows "run lay env k (entry rs m a b c) = run lay env 2 (entry rs m a b c)"
proof -
  have c: "ctl (run lay env 2 (entry rs m a b c)) = In main Start 2"
    by (simp add: eval_nat_numeral run_entry_2 del: run.simps)
  from assms(2) obtain j where j: "k = 2 + j"
    using le_Suc_ex by blast
  have "run lay env k (entry rs m a b c) = run lay env (k - 2) (run lay env 2 (entry rs m a b c))"
    unfolding j by (simp only: run_add add_diff_cancel_left')
  also have "\<dots> = run lay env 2 (entry rs m a b c)"
    using c assms(1) by (rule stuck_in_extern)
  finally show ?thesis .
qed

lemma main_returns_idle:
  assumes "env main (mach (run lay env 2 (entry rs m a b c))) = Some m2" and "3 \<le> k"
  shows "idle (run lay env k (entry rs m a b c))"
proof -
  from assms(2) obtain j where j: "k = 3 + j"
    using le_Suc_ex by blast
  have "idle (run lay env 3 (entry rs m a b c))"
    using run_entry_3 [of env lay rs m a b c m2] assms(1) by (simp add: idle_def)
  then have "idle (run lay env j (run lay env 3 (entry rs m a b c)))"
    by (rule idle_run)
  then show ?thesis
    unfolding j by (simp only: run_add)
qed

lemma tramp_inv_idle_take:
  "tramp_inv v s \<Longrightarrow> idle s \<Longrightarrow> take 3 (trace s) = prologue v"
  by (auto simp: tramp_inv_def idle_def prologue_def)

lemma yield_round:
  assumes "ctl s = At Start 2"
    and "env yield ((mach s)\<lparr>regs := (regs (mach s))(LR := lay Start 3)\<rparr>) = Some m'"
  shows "run lay env 3 s =
     s\<lparr>ctl := At Start 2, mach := m', trace := trace s @ [Call yield, Resume yield]\<rparr>"
  using assms by (simp add: eval_nat_numeral step_At step_In fetch_Start)

lemma yield_again:
  assumes "ctl s = In yield Start 3" and "env yield (mach s) = Some m'"
  shows "run lay env 3 s =
     s\<lparr>ctl := In yield Start 3,
       mach := m'\<lparr>regs := (regs m')(LR := lay Start 3)\<rparr>,
       trace := trace s @ [Resume yield, Call yield]\<rparr>"
  using assms by (simp add: eval_nat_numeral step_At step_In fetch_Start)

lemma yield_rounds:
  assumes "\<forall>x. env yield x \<noteq> None"
  shows "ctl s = At Start 2 \<Longrightarrow>
     ctl (run lay env (3 * N) s) = At Start 2 \<and> trace (run lay env (3 * N) s) = trace s @ yields N"
proof (induction N arbitrary: s)
  case 0
  then show ?case by simp
next
  case (Suc N)
  let ?m = "(mach s)\<lparr>regs := (regs (mach s))(LR := lay Start 3)\<rparr>"
  from assms have "env yield ?m \<noteq> None" ..
  then obtain m' where m': "env yield ?m = Some m'"
    by blast
  let ?t = "s\<lparr>ctl := At Start 2, mach := m', trace := trace s @ [Call yield, Resume yield]\<rparr>"
  have r: "run lay env 3 s = ?t"
    using Suc.prems m' by (rule yield_round)
  have "3 * Suc N = 3 + 3 * N" by simp
  then have "run lay env (3 * Suc N) s = run lay env (3 * N) ?t"
    by (simp only: run_add r)
  moreover have "ctl ?t = At Start 2" by simp
  ultimately show ?case
    using Suc.IH [of ?t] by simp
qed

text \<open>
  C1. For every triple of handoff parameters (and every register file, memory and
  behaviour of main and yield), a run of any length from the entry of \<open>_start\<close> never
  has control back at the caller and never runs past the end of the routine; and either
  control is inside \<open>main\<close> from the second step on forever, or it is in the yield loop
  from the third step on forever.
\<close>

theorem start_never_returns:
  "ctl (run lay env n (entry rs m a b c)) \<noteq> Returned \<and>
   ctl (run lay env n (entry rs m a b c)) \<noteq> Escaped \<and>
   ((\<forall>k\<ge>2. ctl (run lay env k (entry rs m a b c)) = In main Start 2) \<or>
    (\<forall>k\<ge>3. idle (run lay env k (entry rs m a b c))))"
proof -
  have "ctl (run lay env n (entry rs m a b c)) \<in>
          {At Start 0, At Start 1, In main Start 2, At Start 2, In yield Start 3, At Start 3}"
    using reach_inv by (rule tramp_inv_ctl)
  then have stays: "ctl (run lay env n (entry rs m a b c)) \<noteq> Returned \<and>
      ctl (run lay env n (entry rs m a b c)) \<noteq> Escaped"
    by auto
  have "(\<forall>k\<ge>2. ctl (run lay env k (entry rs m a b c)) = In main Start 2) \<or>
        (\<forall>k\<ge>3. idle (run lay env k (entry rs m a b c)))"
  proof (cases "env main (mach (run lay env 2 (entry rs m a b c)))")
    case None
    have two: "ctl (run lay env 2 (entry rs m a b c)) = In main Start 2"
      by (simp add: eval_nat_numeral run_entry_2 del: run.simps)
    have "\<forall>k\<ge>2. ctl (run lay env k (entry rs m a b c)) = In main Start 2"
    proof (intro allI impI)
      fix k :: nat
      assume "2 \<le> k"
      with None have "run lay env k (entry rs m a b c) = run lay env 2 (entry rs m a b c)"
        by (rule main_diverges_run [of env lay rs m a b c])
      with two show "ctl (run lay env k (entry rs m a b c)) = In main Start 2"
        by (simp only:)
    qed
    then show ?thesis ..
  next
    case (Some m2)
    then have "\<And>k. 3 \<le> k \<Longrightarrow> idle (run lay env k (entry rs m a b c))"
      by (rule main_returns_idle [of env lay rs m a b c m2])
    then have "\<forall>k\<ge>3. idle (run lay env k (entry rs m a b c))"
      by blast
    then show ?thesis ..
  qed
  with stays show ?thesis by blast
qed

text \<open>
  The theorem at the handoff (0x1000, 0x2000, 0x3000), nine steps on: with a \<open>main\<close>
  that returns the run is in the yield loop, with one that never returns it is inside
  \<open>main\<close>.
\<close>

theorem start_never_returns_witness:
  "ctl (run lay0 returning 9 (entry regs0 mem0 0x1000 0x2000 0x3000)) \<noteq> Returned \<and>
   ctl (run lay0 returning 9 (entry regs0 mem0 0x1000 0x2000 0x3000)) \<noteq> Escaped \<and>
   idle (run lay0 returning 9 (entry regs0 mem0 0x1000 0x2000 0x3000)) \<and>
   ctl (run lay0 diverging 9 (entry regs0 mem0 0x1000 0x2000 0x3000)) = In main Start 2"
proof -
  have i: "idle (run lay0 returning 9 (entry regs0 mem0 0x1000 0x2000 0x3000))"
    by (simp add: eval_defs eval_nat_numeral)
  have d: "ctl (run lay0 diverging 9 (entry regs0 mem0 0x1000 0x2000 0x3000)) = In main Start 2"
    by (simp add: eval_defs eval_nat_numeral)
  show ?thesis
    using i d start_never_returns [of lay0 returning 9 regs0 mem0 "0x1000" "0x2000" "0x3000"]
    by blast
qed

text \<open>
  C8. If \<open>main\<close> never returns, no state of the run is in the yield loop, no action of
  the run is a call of \<open>yield\<close>, and from the second step on control is inside \<open>main\<close>.
\<close>

theorem main_diverges_never_yields:
  assumes "env main (mach (run lay env 2 (entry rs m a b c))) = None"
  shows "\<not> idle (run lay env n (entry rs m a b c)) \<and>
         Call yield \<notin> set (trace (run lay env n (entry rs m a b c))) \<and>
         (2 \<le> n \<longrightarrow> ctl (run lay env n (entry rs m a b c)) = In main Start 2)"
proof -
  let ?s = "run lay env n (entry rs m a b c)"
  have two: "ctl (run lay env 2 (entry rs m a b c)) = In main Start 2"
    by (simp add: eval_nat_numeral run_entry_2 del: run.simps)
  have later: "2 \<le> n \<longrightarrow> ctl ?s = In main Start 2"
    using main_diverges_run [of env lay rs m a b c n] assms two by (simp del: run.simps)
  have "n = 0 \<or> n = Suc 0 \<or> 2 \<le> n" by arith
  then have ni: "\<not> idle ?s"
  proof (elim disjE)
    assume "n = 0" then show ?thesis by (simp add: entry_def idle_def)
  next
    assume "n = Suc 0" then show ?thesis by (simp add: run_entry_1 idle_def del: run.simps)
  next
    assume "2 \<le> n" with later show ?thesis by (simp add: idle_def)
  qed
  have "tramp_inv (rs SP) ?s" by (rule reach_inv)
  with ni have "Call yield \<notin> set (trace ?s)"
    using tramp_inv_yield_idle by blast
  with ni later show ?thesis by simp
qed

text \<open>
  With a \<open>main\<close> that never returns, fifty steps from entry.
\<close>

theorem main_diverges_never_yields_witness:
  "diverging main (mach (run lay0 diverging 2 (entry regs0 mem0 0x1000 0x2000 0x3000))) = None \<and>
   \<not> idle (run lay0 diverging 50 (entry regs0 mem0 0x1000 0x2000 0x3000)) \<and>
   Call yield \<notin> set (trace (run lay0 diverging 50 (entry regs0 mem0 0x1000 0x2000 0x3000))) \<and>
   ctl (run lay0 diverging 50 (entry regs0 mem0 0x1000 0x2000 0x3000)) = In main Start 2"
proof -
  have h: "diverging main (mach (run lay0 diverging 2 (entry regs0 mem0 0x1000 0x2000 0x3000))) = None"
    by (simp add: diverging_def)
  show ?thesis
    using h main_diverges_never_yields [of diverging lay0 regs0 mem0 "0x1000" "0x2000" "0x3000" 50]
    by (simp del: run.simps)
qed


text \<open>
  C4. If \<open>main\<close> returns, whatever machine state (and so whatever result) it leaves,
  the next action of the trampoline is a call of \<open>yield\<close>; from then on the run is in
  the yield loop, and every action after the return of \<open>main\<close> is a call of \<open>yield\<close> or
  a resumption from it: \<open>main\<close> is not called again.
\<close>

theorem main_returns_then_only_yields:
  assumes "env main (mach (run lay env 2 (entry rs m a b c))) = Some m2"
  shows "trace (run lay env 4 (entry rs m a b c)) =
           [Write R9 (rs SP), Call main, Resume main, Call yield] \<and>
         (3 \<le> n \<longrightarrow>
            idle (run lay env n (entry rs m a b c)) \<and>
            take 3 (trace (run lay env n (entry rs m a b c))) =
              [Write R9 (rs SP), Call main, Resume main] \<and>
            set (drop 3 (trace (run lay env n (entry rs m a b c)))) \<subseteq> {Call yield, Resume yield})"
proof (intro conjI impI)
  show "trace (run lay env 4 (entry rs m a b c)) =
          [Write R9 (rs SP), Call main, Resume main, Call yield]"
    using run_entry_4 [of env lay rs m a b c m2] assms by (simp del: run.simps)
next
  let ?s = "run lay env n (entry rs m a b c)"
  have inv: "tramp_inv (rs SP) ?s" by (rule reach_inv)
  assume "3 \<le> n"
  with assms show i: "idle ?s"
    by (rule main_returns_idle [of env lay rs m a b c m2 n])
  from inv i show "take 3 (trace ?s) = [Write R9 (rs SP), Call main, Resume main]"
    by (simp add: tramp_inv_idle_take prologue_def del: run.simps)
  from inv show "set (drop 3 (trace ?s)) \<subseteq> {Call yield, Resume yield}"
    by (rule tramp_inv_after_return)
qed

text \<open>
  The spec's scenario: handoff (0x1000, 0x2000, 0x3000) and a \<open>main\<close> that returns at once.
\<close>

theorem main_returns_then_only_yields_witness:
  "returning main (mach (run lay0 returning 2 (entry regs0 mem0 0x1000 0x2000 0x3000))) =
     Some \<lparr>regs = regs0(R0 := 7, R1 := 0x2000, R2 := 0x3000, R9 := 0x2800, LR := 0x30008),
           mem = mem0\<rparr> \<and>
   (3::nat) \<le> 10 \<and>
   trace (run lay0 returning 4 (entry regs0 mem0 0x1000 0x2000 0x3000)) =
     [Write R9 (regs0 SP), Call main, Resume main, Call yield] \<and>
   idle (run lay0 returning 10 (entry regs0 mem0 0x1000 0x2000 0x3000)) \<and>
   take 3 (trace (run lay0 returning 10 (entry regs0 mem0 0x1000 0x2000 0x3000))) =
     [Write R9 (regs0 SP), Call main, Resume main] \<and>
   set (drop 3 (trace (run lay0 returning 10 (entry regs0 mem0 0x1000 0x2000 0x3000))))
     \<subseteq> {Call yield, Resume yield}"
proof -
  have h: "returning main (mach (run lay0 returning 2 (entry regs0 mem0 0x1000 0x2000 0x3000))) =
     Some \<lparr>regs = regs0(R0 := 7, R1 := 0x2000, R2 := 0x3000, R9 := 0x2800, LR := 0x30008),
           mem = mem0\<rparr>"
    by (simp add: eval_nat_numeral entry_def step_At fetch_Start returning_def regs0_def
        lay0_def fun_eq_iff)
  show ?thesis
    using h main_returns_then_only_yields
      [of returning lay0 regs0 mem0 "0x1000" "0x2000" "0x3000" _ 10, OF h]
    by (simp del: run.simps)
qed

text \<open>
  C2. No step leaves the yield loop; whenever \<open>yield\<close> resumes, the next action is
  another call of \<open>yield\<close>; and if \<open>yield\<close> always resumes, \<open>N\<close> more rounds of the
  loop add \<open>N\<close> more calls of \<open>yield\<close> to the actions, for every \<open>N\<close>.
\<close>

theorem yield_loop_never_left:
  "(idle s \<longrightarrow> idle (run lay env n s)) \<and>
   (ctl s = In yield Start 3 \<and> env yield (mach s) = Some m' \<longrightarrow>
      ctl (run lay env 3 s) = In yield Start 3 \<and>
      trace (run lay env 3 s) = trace s @ [Resume yield, Call yield]) \<and>
   (ctl s = At Start 2 \<and> (\<forall>x. env yield x \<noteq> None) \<longrightarrow>
      ctl (run lay env (3 * N) s) = At Start 2 \<and>
      trace (run lay env (3 * N) s) = trace s @ yields N)"
proof (intro conjI impI)
  assume "idle s"
  then show "idle (run lay env n s)" by (rule idle_run)
next
  assume a: "ctl s = In yield Start 3 \<and> env yield (mach s) = Some m'"
  then have r: "run lay env 3 s =
      s\<lparr>ctl := In yield Start 3,
        mach := m'\<lparr>regs := (regs m')(LR := lay Start 3)\<rparr>,
        trace := trace s @ [Resume yield, Call yield]\<rparr>"
    by (simp only: yield_again)
  show "ctl (run lay env 3 s) = In yield Start 3"
    by (simp only: r) simp
  show "trace (run lay env 3 s) = trace s @ [Resume yield, Call yield]"
    by (simp only: r) simp
next
  assume a: "ctl s = At Start 2 \<and> (\<forall>x. env yield x \<noteq> None)"
  then have "ctl (run lay env (3 * N) s) = At Start 2 \<and>
      trace (run lay env (3 * N) s) = trace s @ yields N"
    using yield_rounds [of env s lay N] by blast
  then show "ctl (run lay env (3 * N) s) = At Start 2"
    and "trace (run lay env (3 * N) s) = trace s @ yields N"
    by blast+
qed


text \<open>
  From the state in which \<open>main\<close> has just returned, and from the first call of
  \<open>yield\<close>, with a \<open>yield\<close> that always resumes.
\<close>

theorem yield_loop_never_left_witness:
  "idle (run lay0 returning 3 (entry regs0 mem0 0x1000 0x2000 0x3000)) \<and>
   idle (run lay0 returning 5 (run lay0 returning 3 (entry regs0 mem0 0x1000 0x2000 0x3000))) \<and>
   ctl (run lay0 returning 4 (entry regs0 mem0 0x1000 0x2000 0x3000)) = In yield Start 3 \<and>
   returning yield (mach (run lay0 returning 4 (entry regs0 mem0 0x1000 0x2000 0x3000))) =
     Some \<lparr>regs = regs0(R0 := 7, R1 := 0x2000, R2 := 0x3000, R9 := 0x2800, LR := 0x3000C),
           mem = mem0\<rparr> \<and>
   trace (run lay0 returning 3 (run lay0 returning 4 (entry regs0 mem0 0x1000 0x2000 0x3000))) =
     trace (run lay0 returning 4 (entry regs0 mem0 0x1000 0x2000 0x3000)) @
       [Resume yield, Call yield] \<and>
   ctl (run lay0 returning 3 (entry regs0 mem0 0x1000 0x2000 0x3000)) = At Start 2 \<and>
   (\<forall>x. returning yield x \<noteq> None) \<and>
   trace (run lay0 returning (3 * 4) (run lay0 returning 3 (entry regs0 mem0 0x1000 0x2000 0x3000))) =
     trace (run lay0 returning 3 (entry regs0 mem0 0x1000 0x2000 0x3000)) @ yields 4"
proof -
  let ?s0 = "entry regs0 mem0 0x1000 0x2000 0x3000"
  have i: "idle (run lay0 returning 3 ?s0)"
    by (simp add: eval_defs eval_nat_numeral)
  have c3: "ctl (run lay0 returning 3 ?s0) = At Start 2"
    by (simp add: eval_defs eval_nat_numeral)
  have c4: "ctl (run lay0 returning 4 ?s0) = In yield Start 3"
    by (simp add: eval_defs eval_nat_numeral)
  have y: "returning yield (mach (run lay0 returning 4 ?s0)) =
     Some \<lparr>regs = regs0(R0 := 7, R1 := 0x2000, R2 := 0x3000, R9 := 0x2800, LR := 0x3000C),
           mem = mem0\<rparr>"
    by (simp add: eval_defs eval_nat_numeral fun_eq_iff)
  have r: "\<forall>x. returning yield x \<noteq> None"
    by (simp add: returning_def)
  show ?thesis
    using i c3 c4 y r
      yield_loop_never_left [of "run lay0 returning 3 ?s0" lay0 returning 5 _ 4]
      yield_loop_never_left [of "run lay0 returning 4 ?s0" lay0 returning 0
        "\<lparr>regs = regs0(R0 := 7, R1 := 0x2000, R2 := 0x3000, R9 := 0x2800, LR := 0x3000C),
           mem = mem0\<rparr>" 0]
    by blast
qed

lemma step_own_args_only:
  assumes "ctl s = At f pc" and "ctl s' = At f pc" and "trace s = trace s'"
    and "args_only (mach s) (mach s')"
  shows "ctl (step lay env s) = ctl (step lay env' s') \<and>
         trace (step lay env s) = trace (step lay env' s') \<and>
         args_only (mach (step lay env s)) (mach (step lay env' s'))"
proof (cases f)
  case Start
  with assms show ?thesis
    by (simp add: step_At fetch_Start args_only_def)
next
  case Lto_dummy
  with assms show ?thesis
    by (simp add: step_At fetch_Lto_dummy args_only_def)
qed

lemma step_args_only:
  assumes "ignores_args env" and "ctl s = ctl s'" and "trace s = trace s'"
    and "args_only (mach s) (mach s')"
  shows "ctl (step lay env s) = ctl (step lay env s') \<and>
         trace (step lay env s) = trace (step lay env s') \<and>
         args_only (mach (step lay env s)) (mach (step lay env s'))"
proof (cases "ctl s")
  case (At f pc)
  with assms(2) have "ctl s' = At f pc" by simp
  with At assms(3,4) show ?thesis
    using step_own_args_only [of s f pc s' lay env env] by blast
next
  case (In g f ret)
  from assms(1,4) have
    "case env g (mach s) of
       None \<Rightarrow> env g (mach s') = None
     | Some x \<Rightarrow> (case env g (mach s') of None \<Rightarrow> False | Some y \<Rightarrow> args_only x y)"
    unfolding ignores_args_def by blast
  with In assms(2,3,4) show ?thesis
    by (auto simp: step_In split: option.splits)
next
  case Returned
  with assms show ?thesis by (simp add: step_def)
next
  case Escaped
  with assms show ?thesis by (simp add: step_def)
qed

lemma run_args_only:
  assumes "ignores_args env"
  shows "ctl s = ctl s' \<Longrightarrow> trace s = trace s' \<Longrightarrow> args_only (mach s) (mach s') \<Longrightarrow>
     ctl (run lay env n s) = ctl (run lay env n s') \<and> trace (run lay env n s) = trace (run lay env n s')"
proof (induction n arbitrary: s s')
  case 0
  then show ?case by simp
next
  case (Suc n)
  from assms Suc.prems have
    "ctl (step lay env s) = ctl (step lay env s') \<and>
     trace (step lay env s) = trace (step lay env s') \<and>
     args_only (mach (step lay env s)) (mach (step lay env s'))"
    by (rule step_args_only)
  then show ?case
    using Suc.IH [of "step lay env s" "step lay env s'"] by simp
qed

lemma entry_args_only:
  "args_only (mach (entry rs m a b c)) (mach (entry rs m a' b' c'))"
  by (simp add: entry_def args_only_def)

text \<open>
  C6. The trampoline does not read its handoff parameters. An instruction of the file,
  executed on two machines that differ at most in r0, r1 and r2, goes to the same point
  of control with the same action, whatever the environment. And with \<open>main\<close> and
  \<open>yield\<close> taking no arguments, two runs from entry that differ only in the three
  handoff parameters have the same control and the same actions after any number of steps.
\<close>

theorem handoff_parameters_unused:
  "(ctl s = At f pc \<and> ctl s' = At f pc \<and> trace s = trace s' \<and>
      args_only (mach s) (mach s') \<longrightarrow>
      ctl (step lay env s) = ctl (step lay env' s') \<and>
      trace (step lay env s) = trace (step lay env' s') \<and>
      args_only (mach (step lay env s)) (mach (step lay env' s'))) \<and>
   (ignores_args env \<longrightarrow>
      ctl (run lay env n (entry rs m a b c)) = ctl (run lay env n (entry rs m a' b' c')) \<and>
      trace (run lay env n (entry rs m a b c)) = trace (run lay env n (entry rs m a' b' c')))"
proof (intro conjI impI)
  assume h: "ctl s = At f pc \<and> ctl s' = At f pc \<and> trace s = trace s' \<and>
      args_only (mach s) (mach s')"
  then have "ctl (step lay env s) = ctl (step lay env' s') \<and>
         trace (step lay env s) = trace (step lay env' s') \<and>
         args_only (mach (step lay env s)) (mach (step lay env' s'))"
    using step_own_args_only [of s f pc s' lay env env'] by blast
  then show "ctl (step lay env s) = ctl (step lay env' s')"
    and "trace (step lay env s) = trace (step lay env' s')"
    and "args_only (mach (step lay env s)) (mach (step lay env' s'))"
    by blast+
next
  assume i: "ignores_args env"
  have "ctl (run lay env n (entry rs m a b c)) = ctl (run lay env n (entry rs m a' b' c')) \<and>
      trace (run lay env n (entry rs m a b c)) = trace (run lay env n (entry rs m a' b' c'))"
    using i
  proof (rule run_args_only)
    show "ctl (entry rs m a b c) = ctl (entry rs m a' b' c')" by (simp add: entry_def)
    show "trace (entry rs m a b c) = trace (entry rs m a' b' c')" by (simp add: entry_def)
    show "args_only (mach (entry rs m a b c)) (mach (entry rs m a' b' c'))"
      by (rule entry_args_only)
  qed
  then show "ctl (run lay env n (entry rs m a b c)) = ctl (run lay env n (entry rs m a' b' c'))"
    and "trace (run lay env n (entry rs m a b c)) = trace (run lay env n (entry rs m a' b' c'))"
    by blast+
qed

text \<open>
  Seven steps from the handoffs (0x1000, 0x2000, 0x3000) and (1, 2, 3).
\<close>

theorem handoff_parameters_unused_witness:
  "ctl (entry regs0 mem0 0x1000 0x2000 0x3000) = At Start 0 \<and>
   ctl (entry regs0 mem0 1 2 3) = At Start 0 \<and>
   trace (entry regs0 mem0 0x1000 0x2000 0x3000) = trace (entry regs0 mem0 1 2 3) \<and>
   args_only (mach (entry regs0 mem0 0x1000 0x2000 0x3000)) (mach (entry regs0 mem0 1 2 3)) \<and>
   ctl (step lay0 returning (entry regs0 mem0 0x1000 0x2000 0x3000)) =
     ctl (step lay0 diverging (entry regs0 mem0 1 2 3)) \<and>
   trace (step lay0 returning (entry regs0 mem0 0x1000 0x2000 0x3000)) =
     trace (step lay0 diverging (entry regs0 mem0 1 2 3)) \<and>
   ignores_args returning \<and>
   ctl (run lay0 returning 7 (entry regs0 mem0 0x1000 0x2000 0x3000)) =
     ctl (run lay0 returning 7 (entry regs0 mem0 1 2 3)) \<and>
   trace (run lay0 returning 7 (entry regs0 mem0 0x1000 0x2000 0x3000)) =
     trace (run lay0 returning 7 (entry regs0 mem0 1 2 3))"
proof -
  have c: "ctl (entry regs0 mem0 0x1000 0x2000 0x3000) = At Start 0"
    "ctl (entry regs0 mem0 1 2 3) = At Start 0"
    "trace (entry regs0 mem0 0x1000 0x2000 0x3000) = trace (entry regs0 mem0 1 2 3)"
    by (simp_all add: entry_def)
  have a: "args_only (mach (entry regs0 mem0 0x1000 0x2000 0x3000)) (mach (entry regs0 mem0 1 2 3))"
    by (simp add: entry_def args_only_def)
  have i: "ignores_args returning"
    by (simp add: ignores_args_def returning_def args_only_def)
  show ?thesis
    using c a i
      handoff_parameters_unused [of "entry regs0 mem0 0x1000 0x2000 0x3000" Start 0
        "entry regs0 mem0 1 2 3" lay0 returning diverging 7 regs0 mem0
        "0x1000" "0x2000" "0x3000" 1 2 3]
    by blast
qed








lemma idle_step_same:
  assumes "\<forall>x. env yield x \<noteq> None" and "\<forall>x. env' yield x \<noteq> None"
    and "idle s" and "ctl s = ctl s'" and "trace s = trace s'"
  shows "ctl (step lay env s) = ctl (step lay env' s') \<and> trace (step lay env s) = trace (step lay env' s')"
proof -
  from assms(1) have "env yield (mach s) \<noteq> None" ..
  then obtain x where x: "env yield (mach s) = Some x" by blast
  from assms(2) have "env' yield (mach s') \<noteq> None" ..
  then obtain x' where x': "env' yield (mach s') = Some x'" by blast
  from assms(3) have "ctl s = At Start 2 \<or> ctl s = In yield Start 3 \<or> ctl s = At Start 3"
    by (simp add: idle_def)
  then show ?thesis
  proof (elim disjE)
    assume c: "ctl s = At Start 2"
    with assms(4) have "ctl s' = At Start 2" by simp
    with c assms(5) show ?thesis by (simp add: step_At fetch_Start)
  next
    assume c: "ctl s = In yield Start 3"
    with assms(4) have "ctl s' = In yield Start 3" by simp
    with c assms(5) x x' show ?thesis by (simp add: step_In)
  next
    assume c: "ctl s = At Start 3"
    with assms(4) have "ctl s' = At Start 3" by simp
    with c assms(5) show ?thesis by (simp add: step_At fetch_Start)
  qed
qed

lemma idle_run_same:
  assumes "\<forall>x. env yield x \<noteq> None" and "\<forall>x. env' yield x \<noteq> None"
  shows "idle s \<Longrightarrow> ctl s = ctl s' \<Longrightarrow> trace s = trace s' \<Longrightarrow>
     ctl (run lay env n s) = ctl (run lay env' n s') \<and> trace (run lay env n s) = trace (run lay env' n s')"
proof (induction n arbitrary: s s')
  case 0
  then show ?case by simp
next
  case (Suc n)
  have "ctl (step lay env s) = ctl (step lay env' s') \<and> trace (step lay env s) = trace (step lay env' s')"
    using assms Suc.prems by (rule idle_step_same)
  moreover have "idle (step lay env s)"
    using Suc.prems(1) by (rule idle_step)
  ultimately show ?case
    using Suc.IH [of "step lay env s" "step lay env' s'"] by simp
qed

lemma run_entry_2_num:
  "run lay env 2 (entry rs m a b c) =
     \<lparr>ctl = In main Start 2,
      mach = \<lparr>regs = (rs(R0 := a, R1 := b, R2 := c))(R9 := rs SP, LR := lay Start 2),
              mem = m\<rparr>,
      trace = [Write R9 (rs SP), Call main]\<rparr>"
  using run_entry_2 [of lay env rs m a b c] by (simp only: numeral_2_eq_2)

lemma run_entry_same:
  assumes "env main (mach (run lay env 2 (entry rs m a b c))) = Some m2"
    and "env' main (mach (run lay env' 2 (entry rs m a b c))) = Some m2'"
    and "\<forall>x. env yield x \<noteq> None" and "\<forall>x. env' yield x \<noteq> None"
  shows "ctl (run lay env n (entry rs m a b c)) = ctl (run lay env' n (entry rs m a b c)) \<and>
         trace (run lay env n (entry rs m a b c)) = trace (run lay env' n (entry rs m a b c))"
proof -
  have "n = 0 \<or> n = Suc 0 \<or> n = 2 \<or> 3 \<le> n" by arith
  then show ?thesis
  proof (elim disjE)
    assume "n = 0" then show ?thesis by simp
  next
    assume "n = Suc 0" then show ?thesis by (simp add: run_entry_1 del: run.simps)
  next
    assume "n = 2" then show ?thesis by (simp add: run_entry_2_num del: run.simps)
  next
    assume "3 \<le> n"
    then obtain j where j: "n = 3 + j"
      using le_Suc_ex by blast
    let ?t = "run lay env 3 (entry rs m a b c)" and ?t' = "run lay env' 3 (entry rs m a b c)"
    have t: "?t = \<lparr>ctl = At Start 2, mach = m2,
        trace = [Write R9 (rs SP), Call main, Resume main]\<rparr>"
      using assms(1) by (rule run_entry_3 [of env lay rs m a b c m2])
    have t': "?t' = \<lparr>ctl = At Start 2, mach = m2',
        trace = [Write R9 (rs SP), Call main, Resume main]\<rparr>"
      using assms(2) by (rule run_entry_3 [of env' lay rs m a b c m2'])
    have "ctl (run lay env j ?t) = ctl (run lay env' j ?t') \<and>
          trace (run lay env j ?t) = trace (run lay env' j ?t')"
      using assms(3,4)
    proof (rule idle_run_same)
      show "idle ?t" by (simp only: t) (simp add: idle_def)
      show "ctl ?t = ctl ?t'" by (simp only: t t') simp
      show "trace ?t = trace ?t'" by (simp only: t t') simp
    qed
    then show ?thesis
      unfolding j by (simp only: run_add)
  qed
qed

text \<open>
  C9. The second instruction is the linking call \<open>bl main\<close>: after it control is inside
  \<open>main\<close> with the next instruction of the trampoline as return point, and the machine
  is as at entry but for r9 and the link register, no argument having been set up. If \<open>main\<close> returns, control
  is back in the trampoline at that instruction. What \<open>main\<close> leaves in the machine is
  ignored: with a \<open>yield\<close> that always resumes, two runs in which \<open>main\<close> returns
  different machine states have the same control and the same actions at every step.
\<close>

theorem main_called_and_result_ignored:
  "fetch Start 1 = Some (BL main) \<and>
   run lay env 2 (entry rs m a b c) =
     \<lparr>ctl = In main Start 2,
      mach = (mach (entry rs m a b c))
               \<lparr>regs := (regs (mach (entry rs m a b c)))(R9 := rs SP, LR := lay Start 2)\<rparr>,
      trace = [Write R9 (rs SP), Call main]\<rparr> \<and>
   (env main (mach (run lay env 2 (entry rs m a b c))) = Some m2 \<longrightarrow>
      ctl (run lay env 3 (entry rs m a b c)) = At Start 2 \<and>
      fetch Start 2 = Some (BL yield)) \<and>
   (env main (mach (run lay env 2 (entry rs m a b c))) = Some m2 \<and>
    env' main (mach (run lay env' 2 (entry rs m a b c))) = Some m2' \<and>
    (\<forall>x. env yield x \<noteq> None) \<and> (\<forall>x. env' yield x \<noteq> None) \<longrightarrow>
      ctl (run lay env n (entry rs m a b c)) = ctl (run lay env' n (entry rs m a b c)) \<and>
      trace (run lay env n (entry rs m a b c)) = trace (run lay env' n (entry rs m a b c)))"
proof (intro conjI impI)
  show "fetch Start 1 = Some (BL main)"
    by (simp add: fetch_Start)
  show "run lay env 2 (entry rs m a b c) =
     \<lparr>ctl = In main Start 2,
      mach = (mach (entry rs m a b c))
               \<lparr>regs := (regs (mach (entry rs m a b c)))(R9 := rs SP, LR := lay Start 2)\<rparr>,
      trace = [Write R9 (rs SP), Call main]\<rparr>"
    by (simp only: run_entry_2_num) (simp add: entry_def)
next
  assume "env main (mach (run lay env 2 (entry rs m a b c))) = Some m2"
  then have "run lay env 3 (entry rs m a b c) =
      \<lparr>ctl = At Start 2, mach = m2, trace = [Write R9 (rs SP), Call main, Resume main]\<rparr>"
    by (rule run_entry_3 [of env lay rs m a b c m2])
  then show "ctl (run lay env 3 (entry rs m a b c)) = At Start 2"
    by (simp only:) simp
  show "fetch Start 2 = Some (BL yield)"
    by (simp add: fetch_Start)
next
  assume h: "env main (mach (run lay env 2 (entry rs m a b c))) = Some m2 \<and>
    env' main (mach (run lay env' 2 (entry rs m a b c))) = Some m2' \<and>
    (\<forall>x. env yield x \<noteq> None) \<and> (\<forall>x. env' yield x \<noteq> None)"
  then have "ctl (run lay env n (entry rs m a b c)) = ctl (run lay env' n (entry rs m a b c)) \<and>
         trace (run lay env n (entry rs m a b c)) = trace (run lay env' n (entry rs m a b c))"
    using run_entry_same [of env lay rs m a b c m2 env' m2' n] by blast
  then show "ctl (run lay env n (entry rs m a b c)) = ctl (run lay env' n (entry rs m a b c))"
    and "trace (run lay env n (entry rs m a b c)) = trace (run lay env' n (entry rs m a b c))"
    by blast+
qed

text \<open>
  A \<open>main\<close> that returns 7 in r0 against one that returns with the machine untouched.
\<close>

theorem main_called_and_result_ignored_witness:
  "returning main (mach (run lay0 returning 2 (entry regs0 mem0 0x1000 0x2000 0x3000))) =
     Some \<lparr>regs = regs0(R0 := 7, R1 := 0x2000, R2 := 0x3000, R9 := 0x2800, LR := 0x30008),
           mem = mem0\<rparr> \<and>
   passing main (mach (run lay0 passing 2 (entry regs0 mem0 0x1000 0x2000 0x3000))) =
     Some \<lparr>regs = regs0(R0 := 0x1000, R1 := 0x2000, R2 := 0x3000, R9 := 0x2800, LR := 0x30008),
           mem = mem0\<rparr> \<and>
   (\<forall>x. returning yield x \<noteq> None) \<and>
   (\<forall>x. passing yield x \<noteq> None) \<and>
   ctl (run lay0 returning 3 (entry regs0 mem0 0x1000 0x2000 0x3000)) = At Start 2 \<and>
   ctl (run lay0 returning 11 (entry regs0 mem0 0x1000 0x2000 0x3000)) =
     ctl (run lay0 passing 11 (entry regs0 mem0 0x1000 0x2000 0x3000)) \<and>
   trace (run lay0 returning 11 (entry regs0 mem0 0x1000 0x2000 0x3000)) =
     trace (run lay0 passing 11 (entry regs0 mem0 0x1000 0x2000 0x3000))"
proof -
  let ?s0 = "entry regs0 mem0 0x1000 0x2000 0x3000"
  have r: "returning main (mach (run lay0 returning 2 ?s0)) =
     Some \<lparr>regs = regs0(R0 := 7, R1 := 0x2000, R2 := 0x3000, R9 := 0x2800, LR := 0x30008),
           mem = mem0\<rparr>"
    by (simp add: eval_nat_numeral entry_def step_At fetch_Start returning_def regs0_def
        lay0_def fun_eq_iff)
  have p: "passing main (mach (run lay0 passing 2 ?s0)) =
     Some \<lparr>regs = regs0(R0 := 0x1000, R1 := 0x2000, R2 := 0x3000, R9 := 0x2800, LR := 0x30008),
           mem = mem0\<rparr>"
    by (simp add: eval_nat_numeral entry_def step_At fetch_Start passing_def regs0_def
        lay0_def fun_eq_iff)
  have y: "\<forall>x. returning yield x \<noteq> None" "\<forall>x. passing yield x \<noteq> None"
    by (simp_all add: returning_def passing_def)
  show ?thesis
    using r p y
      main_called_and_result_ignored [of lay0 returning regs0 mem0 "0x1000" "0x2000" "0x3000"
        "\<lparr>regs = regs0(R0 := 7, R1 := 0x2000, R2 := 0x3000, R9 := 0x2800, LR := 0x30008),
           mem = mem0\<rparr>"
        passing
        "\<lparr>regs = regs0(R0 := 0x1000, R1 := 0x2000, R2 := 0x3000, R9 := 0x2800, LR := 0x30008),
           mem = mem0\<rparr>"
        11]
    by blast
qed

lemma past_call_step:
  assumes "tramp_inv v s" and "ctl s \<noteq> At Start 0" and "ctl s \<noteq> At Start 1"
  shows "ctl (step lay env s) \<noteq> At Start 0 \<and> ctl (step lay env s) \<noteq> At Start 1"
  using assms
  by (auto simp: tramp_inv_def step_At step_In fetch_Start split: option.splits)

lemma past_call_run:
  "tramp_inv v s \<Longrightarrow> ctl s \<noteq> At Start 0 \<Longrightarrow> ctl s \<noteq> At Start 1 \<Longrightarrow>
   ctl (run lay env j s) \<noteq> At Start 0 \<and> ctl (run lay env j s) \<noteq> At Start 1"
proof (induction j arbitrary: s)
  case 0
  then show ?case by simp
next
  case (Suc j)
  have "tramp_inv v (step lay env s)"
    using Suc.prems(1) by (rule tramp_inv_step)
  moreover have "ctl (step lay env s) \<noteq> At Start 0 \<and> ctl (step lay env s) \<noteq> At Start 1"
    using Suc.prems by (rule past_call_step)
  ultimately show ?case
    using Suc.IH [of "step lay env s"] by simp
qed

lemma run_calls_main:
  "filter ((=) (Call main)) (trace (run lay env n (entry rs m a b c))) =
     (if n < 2 then [] else [Call main])"
proof -
  let ?s = "run lay env n (entry rs m a b c)"
  have inv: "tramp_inv (rs SP) ?s" by (rule reach_inv)
  have "n = 0 \<or> n = Suc 0 \<or> 2 \<le> n" by arith
  then show ?thesis
  proof (elim disjE)
    assume "n = 0" then show ?thesis by (simp add: entry_def)
  next
    assume "n = Suc 0" then show ?thesis by (simp add: run_entry_1 del: run.simps)
  next
    assume n: "2 \<le> n"
    then obtain j where j: "n = 2 + j"
      using le_Suc_ex by blast
    let ?t = "run lay env 2 (entry rs m a b c)"
    have t: "?t = \<lparr>ctl = In main Start 2,
      mach = \<lparr>regs = (rs(R0 := a, R1 := b, R2 := c))(R9 := rs SP, LR := lay Start 2),
              mem = m\<rparr>,
      trace = [Write R9 (rs SP), Call main]\<rparr>"
      by (rule run_entry_2_num)
    have "tramp_inv (rs SP) ?t" by (rule reach_inv)
    moreover have "ctl ?t \<noteq> At Start 0" by (simp only: t) simp
    moreover have "ctl ?t \<noteq> At Start 1" by (simp only: t) simp
    ultimately have "ctl (run lay env j ?t) \<noteq> At Start 0 \<and> ctl (run lay env j ?t) \<noteq> At Start 1"
      by (rule past_call_run)
    then have "ctl ?s \<noteq> At Start 0 \<and> ctl ?s \<noteq> At Start 1"
      unfolding j run_add .
    with inv n show ?thesis
      by (simp add: tramp_inv_calls_main del: run.simps)
  qed
qed

text \<open>
  C10. In a run from entry, control at an instruction of the file is always in the
  assembly block of \<open>_start\<close>, and so is every return point of a call: the calls after
  the block and the body of \<open>lto_asm_references_dummy_function\<close> are never executed by
  the trampoline. \<open>main\<close> has been called exactly once from the second step on.
\<close>

theorem tail_and_dummy_never_executed:
  "(ctl (run lay env n (entry rs m a b c)) = At f pc \<longrightarrow> f = Start \<and> pc < length start_asm) \<and>
   (ctl (run lay env n (entry rs m a b c)) = In g f ret \<longrightarrow> f = Start \<and> ret < length start_asm) \<and>
   filter ((=) (Call main)) (trace (run lay env n (entry rs m a b c))) =
     (if n < 2 then [] else [Call main])"
proof -
  have "ctl (run lay env n (entry rs m a b c)) \<in>
          {At Start 0, At Start 1, In main Start 2, At Start 2, In yield Start 3, At Start 3}"
    using reach_inv by (rule tramp_inv_ctl)
  then have
    "(ctl (run lay env n (entry rs m a b c)) = At f pc \<longrightarrow> f = Start \<and> pc < length start_asm) \<and>
     (ctl (run lay env n (entry rs m a b c)) = In g f ret \<longrightarrow> f = Start \<and> ret < length start_asm)"
    by (auto simp: start_asm_def)
  then show ?thesis
    using run_calls_main [of lay env n rs m a b c] by blast
qed

text \<open>
  Nine and ten steps from entry with a \<open>main\<close> that returns.
\<close>

theorem tail_and_dummy_never_executed_witness:
  "ctl (run lay0 returning 9 (entry regs0 mem0 0x1000 0x2000 0x3000)) = At Start 2 \<and>
   2 < length start_asm \<and>
   ctl (run lay0 returning 10 (entry regs0 mem0 0x1000 0x2000 0x3000)) = In yield Start 3 \<and>
   3 < length start_asm \<and>
   filter ((=) (Call main)) (trace (run lay0 returning 10 (entry regs0 mem0 0x1000 0x2000 0x3000))) =
     [Call main]"
proof -
  let ?s0 = "entry regs0 mem0 0x1000 0x2000 0x3000"
  have c9: "ctl (run lay0 returning 9 ?s0) = At Start 2"
    by (simp add: eval_defs eval_nat_numeral)
  have c10: "ctl (run lay0 returning 10 ?s0) = In yield Start 3"
    by (simp add: eval_defs eval_nat_numeral)
  have n: "\<not> (10::nat) < 2" by simp
  show ?thesis
    using c9 c10 n
      tail_and_dummy_never_executed [of lay0 returning 9 regs0 mem0 "0x1000" "0x2000" "0x3000" Start 2]
      tail_and_dummy_never_executed [of lay0 returning 10 regs0 mem0 "0x1000" "0x2000" "0x3000"
        Start _ yield 3]
    by (simp del: run.simps)
qed

end
